theory Spec2Isabelle
  imports Complex_Main
begin

section \<open>The real-time monitor of \<open>src/frontend/components/Login.tsx\<close>\<close>

text \<open>
  The component \<open>RealtimeMonitorModal\<close> (lines 462-495) opens a WebSocket and installs
  three callbacks: \<open>onopen\<close>, \<open>onmessage\<close> and \<open>onclose\<close>. The callbacks update four
  pieces of React state through functional updaters (\<open>setX(prev => ...)\<close>), which are
  modelled as explicit state passing: the callback takes the state and returns the new one.
\<close>

subsection \<open>Values that \<open>JSON.parse\<close> returns\<close>

text \<open>
  \<open>data\<close> is whatever \<open>JSON.parse\<close> returns: any JSON value, not only an object of the
  interface \<open>RealtimeTransaction\<close> (line 292), which TypeScript does not check at run time.
  A number is the double that \<open>JSON.parse\<close> produced, as the rational it denotes (\<open>-0\<close> and
  \<open>0\<close> are one value here: they agree on truthiness and on \<open>===\<close>; the handler only tests a
  number for being 0 or 1, so an overflowed literal behaves as any other number). An object is
  the list of its own properties, each key once. The result of a property read is
  \<open>json option\<close>, where \<open>None\<close> is JavaScript's \<open>undefined\<close>.
\<close>

datatype json =
    JNull
  | JBool bool
  | JNum rat
  | JStr string
  | JArr "json list"
  | JObj "(string \<times> json) list"

datatype js_error = SyntaxError | TypeError

text \<open>
  \<open>data.k\<close> for the keys the handler reads (\<open>type\<close>, \<open>message\<close>, \<open>is_alert\<close>,
  \<open>fraud_actual\<close>): an own property of an object, \<open>undefined\<close> on an object without it and on
  a boolean, number, string or array (their prototypes have no property of these names).
\<close>

fun property :: "json \<Rightarrow> string \<Rightarrow> json option" where
  "property (JObj kvs) k = map_of kvs k"
| "property _ k = None"

text \<open>Reading a property of \<open>null\<close> throws a \<open>TypeError\<close>.\<close>

definition get_prop :: "json \<Rightarrow> string \<Rightarrow> js_error + json option" where
  "get_prop d k = (if d = JNull then Inl TypeError else Inr (property d k))"

text \<open>JavaScript's truthiness (\<open>ToBoolean\<close>), as used by \<open>c ? 1 : 0\<close>, \<open>a && b\<close> and \<open>if (c)\<close>.\<close>

fun truthy :: "json option \<Rightarrow> bool" where
  "truthy None = False"
| "truthy (Some JNull) = False"
| "truthy (Some (JBool b)) = b"
| "truthy (Some (JNum n)) = (n \<noteq> 0)"
| "truthy (Some (JStr s)) = (s \<noteq> [])"
| "truthy (Some (JArr xs)) = True"
| "truthy (Some (JObj kvs)) = True"

subsection \<open>The component's state\<close>

text \<open>
  \<open>useState({ total: 0, alerts: 0, truePositives: 0, falsePositives: 0 })\<close> (line 466). The
  counters are JavaScript numbers that hold integers; they are modelled as unbounded integers
  (exact in the source below \<open>2^53\<close>).
\<close>

record stats =
  total :: int
  alerts :: int
  truePositives :: int
  falsePositives :: int

text \<open>
  The state variables of lines 463-466 and the ref of line 468. The state variable \<open>alerts\<close>
  (the alert feed) is the field \<open>alertFeed\<close>, since \<open>alerts\<close> is a counter of \<open>stats\<close>.
  \<open>audioRef\<close> tells whether \<open>audioRef.current\<close> holds an \<open>Audio\<close> element.
\<close>

record monitor =
  transactions :: "json list"
  alertFeed :: "json list"
  isConnected :: bool
  stats :: stats
  audioRef :: bool

text \<open>The state at mount, once the effect has run in a browser (\<open>window\<close> is defined).\<close>

definition initial :: monitor where
  "initial = \<lparr>transactions = [], alertFeed = [], isConnected = False,
     stats = \<lparr>total = 0, alerts = 0, truePositives = 0, falsePositives = 0\<rparr>,
     audioRef = True\<rparr>"

subsection \<open>The callbacks\<close>

text \<open>
  What a callback does besides updating the state: the blocking dialog of \<open>alert(...)\<close>, whose
  text is \<open>"Backend Error: "\<close> followed by the operand \<open>data.message\<close> as a string; the
  playback of the cue; and \<open>ws.close()\<close>.
\<close>

datatype effect = WindowAlert "json option" | AudioPlay | WsClose

text \<open>A callback returns or throws; it has no \<open>try\<close>.\<close>

datatype completion = Normal | Throw js_error

text \<open>
  The frame handed to \<open>onmessage\<close> is described by what \<open>JSON.parse(event.data)\<close> does with
  it: it throws a \<open>SyntaxError\<close> or returns a value.
\<close>

datatype message_event = Malformed | Json json

fun JSON_parse :: "message_event \<Rightarrow> js_error + json" where
  "JSON_parse Malformed = Inl SyntaxError"
| "JSON_parse (Json d) = Inr d"

text \<open>\<open>data.is_alert\<close> as a condition, and \<open>data.fraud_actual\<close>.\<close>

definition is_alert :: "json \<Rightarrow> bool" where
  "is_alert d = truthy (property d ''is_alert'')"

definition fraud_actual :: "json \<Rightarrow> json option" where
  "fraud_actual d = property d ''fraud_actual''"

text \<open>The updater of \<open>setStats\<close> (lines 481-485).\<close>

definition setStats :: "json \<Rightarrow> stats \<Rightarrow> stats" where
  "setStats d prev =
     \<lparr>total = total prev + 1,
      alerts = alerts prev + (if is_alert d then 1 else 0),
      truePositives = truePositives prev +
        (if is_alert d \<and> fraud_actual d = Some (JNum 1) then 1 else 0),
      falsePositives = falsePositives prev +
        (if is_alert d \<and> fraud_actual d = Some (JNum 0) then 1 else 0)\<rparr>"

text \<open>The transaction branch of the handler (lines 479-490).\<close>

definition on_transaction :: "monitor \<Rightarrow> json \<Rightarrow> completion \<times> effect list \<times> monitor" where
  "on_transaction s d =
     (let s1 = s\<lparr>transactions := take 50 (d # transactions s)\<rparr>;
          s2 = s1\<lparr>stats := setStats d (stats s1)\<rparr>
      in if is_alert d
         then (Normal, (if audioRef s2 then [AudioPlay] else []),
               s2\<lparr>alertFeed := take 20 (d # alertFeed s2)\<rparr>)
         else (Normal, [], s2))"

text \<open>
  \<open>"Backend Error: " + data.message\<close> (line 478) converts the operand to a primitive first.
  A parsed value holds no function, so an object with an own member \<open>toString\<close> has neither
  a callable \<open>toString\<close> nor a \<open>valueOf\<close> returning a primitive, and the conversion throws
  a \<open>TypeError\<close>; an object without it converts through \<open>Object.prototype.toString\<close>. An
  array converts through \<open>join\<close>, which converts each element other than \<open>null\<close>.
  Every other value, and \<open>undefined\<close>, converts.
\<close>

fun to_primitive_throws :: "json \<Rightarrow> bool" where
  "to_primitive_throws (JObj kvs) = (map_of kvs ''toString'' \<noteq> None)"
| "to_primitive_throws (JArr xs) = list_ex to_primitive_throws xs"
| "to_primitive_throws _ = False"

fun concat_throws :: "json option \<Rightarrow> bool" where
  "concat_throws None = False"
| "concat_throws (Some v) = to_primitive_throws v"

text \<open>\<open>ws.onmessage\<close> (lines 476-491).\<close>

definition onmessage :: "monitor \<Rightarrow> message_event \<Rightarrow> completion \<times> effect list \<times> monitor" where
  "onmessage s event =
     (case JSON_parse event of
        Inl e \<Rightarrow> (Throw e, [], s)
      | Inr d \<Rightarrow>
          (case get_prop d ''type'' of
             Inl e \<Rightarrow> (Throw e, [], s)
           | Inr ty \<Rightarrow>
               if ty = Some (JStr ''error'')
               then (if concat_throws (property d ''message'')
                     then (Throw TypeError, [], s)
                     else (Normal, [WindowAlert (property d ''message'')], s))
               else if ty = Some (JStr ''transaction'')
               then on_transaction s d
               else (Normal, [], s)))"

text \<open>\<open>ws.onopen\<close> (line 474), \<open>ws.onclose\<close> (line 492) and the effect's cleanup (line 493).\<close>

definition onopen :: "monitor \<Rightarrow> completion \<times> effect list \<times> monitor" where
  "onopen s = (Normal, [], s\<lparr>isConnected := True\<rparr>)"

definition onclose :: "monitor \<Rightarrow> completion \<times> effect list \<times> monitor" where
  "onclose s = (Normal, [], s\<lparr>isConnected := False\<rparr>)"


subsection \<open>A session: the callbacks in the order the socket fires them\<close>

datatype ws_event = Open | Message message_event | Close

fun dispatch :: "monitor \<Rightarrow> ws_event \<Rightarrow> completion \<times> effect list \<times> monitor" where
  "dispatch s Open = onopen s"
| "dispatch s (Message m) = onmessage s m"
| "dispatch s Close = onclose s"

text \<open>The state a callback leaves behind, also when it throws.\<close>

definition step :: "monitor \<Rightarrow> ws_event \<Rightarrow> monitor" where
  "step s ev = snd (snd (dispatch s ev))"

text \<open>
  The events of a session one after the other. An exception ends the callback that threw it;
  the state it leaves is the one the next callback starts from.
\<close>

fun run :: "monitor \<Rightarrow> ws_event list \<Rightarrow> monitor" where
  "run s [] = s"
| "run s (ev # evs) = run (step s ev) evs"

inductive reachable :: "monitor \<Rightarrow> bool" where
  fresh: "reachable initial"
| after: "reachable s \<Longrightarrow> reachable (step s ev)"

text \<open>The payloads the handler takes for a \<open>transaction\<close> frame, and a list of such frames.\<close>

definition is_transaction :: "json \<Rightarrow> bool" where
  "is_transaction d = (get_prop d ''type'' = Inr (Some (JStr ''transaction'')))"

definition frames :: "json list \<Rightarrow> ws_event list" where
  "frames ds = map (\<lambda>d. Message (Json d)) ds"

text \<open>
  An alerted \<open>transaction\<close> frame carries a label when its \<open>fraud_actual\<close> is the number
  0 or 1; every other event has nothing to label.
\<close>

fun labelled :: "ws_event \<Rightarrow> bool" where
  "labelled (Message (Json d)) =
     (if is_transaction d \<and> is_alert d
      then fraud_actual d = Some (JNum 0) \<or> fraud_actual d = Some (JNum 1)
      else True)"
| "labelled _ = True"

text \<open>
  Sample frames: transaction number \<open>i\<close>, alerted when \<open>i\<close> is even, labelled as fraud.
\<close>

definition sample_event :: "nat \<Rightarrow> json" where
  "sample_event i = JObj [(''type'', JStr ''transaction''), (''transaction_id'', JNum (of_nat i)),
     (''is_alert'', JBool (even i)), (''fraud_actual'', JNum 1)]"

section \<open>Facts about lists and about one step\<close>

lemma take_Cons_take: "take n (x # take n xs) = take n (x # xs)"
  by (cases n) (simp_all add: min_def)

lemma take_full_Cons: "length xs = n \<Longrightarrow> 0 < n \<Longrightarrow> take n (x # xs) = x # butlast xs"
  by (cases n) (simp_all add: butlast_conv_take)

lemma onmessage_transaction:
  "is_transaction d \<Longrightarrow> onmessage s (Json d) = on_transaction s d"
  by (simp add: onmessage_def is_transaction_def)

lemma step_transaction:
  assumes "is_transaction d"
  shows "step s (Message (Json d)) =
    s\<lparr>transactions := take 50 (d # transactions s),
      stats := setStats d (stats s),
      alertFeed := (if is_alert d then take 20 (d # alertFeed s) else alertFeed s)\<rparr>"
  using assms by (simp add: step_def onmessage_transaction on_transaction_def Let_def)

lemma step_other:
  assumes "\<forall>d. ev = Message (Json d) \<longrightarrow> \<not> is_transaction d"
  shows "transactions (step s ev) = transactions s \<and> alertFeed (step s ev) = alertFeed s
    \<and> stats (step s ev) = stats s"
proof (cases ev)
  case Open
  then show ?thesis by (simp add: step_def onopen_def)
next
  case (Message m)
  show ?thesis
  proof (cases m)
    case Malformed
    with Message show ?thesis by (simp add: step_def onmessage_def)
  next
    case (Json d)
    with Message assms have "\<not> is_transaction d" by simp
    with Message Json show ?thesis
      by (simp add: step_def onmessage_def is_transaction_def split: sum.splits)
  qed
next
  case Close
  then show ?thesis by (simp add: step_def onclose_def)
qed

lemma take_append_take: "take n (ys @ take n zs) = take n (ys @ zs)"
  by (simp add: min_def)

lemma run_frames_Cons: "run s (frames (d # ds)) = run (step s (Message (Json d))) (frames ds)"
  by (simp add: frames_def)

lemma run_frames_transactions:
  "\<forall>d\<in>set ds. is_transaction d \<Longrightarrow> length (transactions s) \<le> 50 \<Longrightarrow>
   transactions (run s (frames ds)) = take 50 (rev ds @ transactions s)"
proof (induction ds arbitrary: s)
  case Nil
  then show ?case by (simp add: frames_def)
next
  case (Cons d ds)
  let ?s' = "step s (Message (Json d))"
  have tx: "transactions ?s' = take 50 (d # transactions s)"
    using Cons.prems by (simp add: step_transaction del: take_Cons_numeral)
  have "transactions (run ?s' (frames ds)) = take 50 (rev ds @ transactions ?s')"
    using Cons.prems by (intro Cons.IH) (simp_all add: tx)
  also have "\<dots> = take 50 (rev ds @ d # transactions s)"
    by (simp only: tx take_append_take)
  finally show ?case by (simp add: run_frames_Cons)
qed

lemma run_frames_alertFeed:
  "\<forall>d\<in>set ds. is_transaction d \<Longrightarrow> length (alertFeed s) \<le> 20 \<Longrightarrow>
   alertFeed (run s (frames ds)) = take 20 (rev (filter is_alert ds) @ alertFeed s)"
proof (induction ds arbitrary: s)
  case Nil
  then show ?case by (simp add: frames_def)
next
  case (Cons d ds)
  let ?s' = "step s (Message (Json d))"
  have af: "alertFeed ?s' = (if is_alert d then take 20 (d # alertFeed s) else alertFeed s)"
    using Cons.prems by (simp add: step_transaction del: take_Cons_numeral)
  have "alertFeed (run ?s' (frames ds)) = take 20 (rev (filter is_alert ds) @ alertFeed ?s')"
    using Cons.prems by (intro Cons.IH) (simp_all add: af)
  also have "\<dots> = take 20 (rev (filter is_alert (d # ds)) @ alertFeed s)"
    by (simp only: af take_append_take filter.simps rev.simps append_assoc append_Cons
        append_Nil split: if_splits) simp
  finally show ?case by (simp only: run_frames_Cons)
qed

lemma run_frames_stats:
  "\<forall>d\<in>set ds. is_transaction d \<Longrightarrow>
   stats (run s (frames ds)) = fold setStats ds (stats s)"
proof (induction ds arbitrary: s)
  case Nil
  then show ?case by (simp add: frames_def)
next
  case (Cons d ds)
  then show ?case by (simp add: run_frames_Cons step_transaction)
qed

lemma fold_setStats_total: "total (fold setStats ds st) = total st + int (length ds)"
  by (induction ds arbitrary: st) (simp_all add: setStats_def)

lemma fold_setStats_alerts:
  "alerts (fold setStats ds st) = alerts st + int (length (filter is_alert ds))"
  by (induction ds arbitrary: st) (simp_all add: setStats_def)


section \<open>The window buffers\<close>

text \<open>
  Claim C1. Push any list \<open>ds\<close> of transaction frames into a session whose two buffers are
  empty. The transaction stream then holds the 50 newest frames, newest first, and the alert
  feed the 20 newest alerted frames, newest first: the lengths are \<open>min N 50\<close> and
  \<open>min N 20\<close> (for the \<open>N\<close> frames pushed into each), the front is the frame pushed last,
  and position \<open>i\<close> holds the frame pushed \<open>i\<close> pushes before the last. A push into a full
  buffer drops the last (oldest) element and nothing else. After 51 distinct frames the
  transaction stream has length 50, the first frame is gone and the 51st is at the front.
\<close>

theorem window_buffers_newest_first:
  assumes "\<forall>d\<in>set ds. is_transaction d"
    and "transactions s = []" and "alertFeed s = []"
  shows "transactions (run s (frames ds)) = take 50 (rev ds)
    \<and> alertFeed (run s (frames ds)) = take 20 (rev (filter is_alert ds))
    \<and> length (transactions (run s (frames ds))) = min (length ds) 50
    \<and> length (alertFeed (run s (frames ds))) = min (length (filter is_alert ds)) 20
    \<and> (ds \<noteq> [] \<longrightarrow> transactions (run s (frames ds)) ! 0 = last ds)
    \<and> (filter is_alert ds \<noteq> [] \<longrightarrow>
         alertFeed (run s (frames ds)) ! 0 = last (filter is_alert ds))
    \<and> (\<forall>i < min (length ds) 50.
         transactions (run s (frames ds)) ! i = ds ! (length ds - Suc i))
    \<and> (\<forall>t d. is_transaction d \<and> length (transactions t) = 50 \<longrightarrow>
         transactions (step t (Message (Json d))) = d # butlast (transactions t))
    \<and> (\<forall>t d. is_transaction d \<and> is_alert d \<and> length (alertFeed t) = 20 \<longrightarrow>
         alertFeed (step t (Message (Json d))) = d # butlast (alertFeed t))
    \<and> (length ds = 51 \<and> distinct ds \<longrightarrow>
         length (transactions (run s (frames ds))) = 50
         \<and> hd ds \<notin> set (transactions (run s (frames ds)))
         \<and> transactions (run s (frames ds)) ! 0 = last ds)"
proof -
  let ?tx = "transactions (run s (frames ds))"
  let ?af = "alertFeed (run s (frames ds))"
  have tx: "?tx = take 50 (rev ds)"
    using assms by (simp add: run_frames_transactions)
  have af: "?af = take 20 (rev (filter is_alert ds))"
    using assms by (simp add: run_frames_alertFeed)
  have front: "xs \<noteq> [] \<Longrightarrow> 0 < n \<Longrightarrow> take n (rev xs) ! 0 = last xs" for xs :: "json list" and n
    by (simp add: rev_nth last_conv_nth)
  have order: "\<forall>i < min (length ds) 50. ?tx ! i = ds ! (length ds - Suc i)"
    unfolding tx by (simp add: rev_nth)
  have evict_tx: "transactions (step t (Message (Json d))) = d # butlast (transactions t)"
    if "is_transaction d" "length (transactions t) = 50" for t d
    using that by (simp add: step_transaction take_full_Cons del: take_Cons_numeral)
  have evict_af: "alertFeed (step t (Message (Json d))) = d # butlast (alertFeed t)"
    if "is_transaction d" "is_alert d" "length (alertFeed t) = 20" for t d
    using that by (simp add: step_transaction take_full_Cons del: take_Cons_numeral)
  have scen: "length ?tx = 50 \<and> hd ds \<notin> set ?tx \<and> ?tx ! 0 = last ds"
    if len: "length ds = 51" and dist: "distinct ds"
  proof -
    from len obtain d ds' where ds: "ds = d # ds'" and len': "length ds' = 50"
      by (cases ds) simp_all
    have "take 50 (rev ds) = rev ds'"
      using len' by (simp add: ds)
    with tx have "?tx = rev ds'" by simp
    moreover have "d \<notin> set ds'" using dist ds by simp
    moreover have "ds' \<noteq> []" using len' by auto
    then have "last ds = rev ds' ! 0"
      using len' ds by (simp add: rev_nth last_conv_nth)
    ultimately show ?thesis using len' ds by simp
  qed
  show ?thesis
    using tx af order evict_tx evict_af scen front[of ds 50] front[of "filter is_alert ds" 20]
    by (simp add: min_def)
qed


theorem window_buffers_newest_first_witness:
  "list_all is_transaction (map sample_event [1..<52])
   \<and> transactions initial = [] \<and> alertFeed initial = []
   \<and> distinct (map sample_event [1..<52])
   \<and> length (transactions (run initial (frames (map sample_event [1..<52])))) = 50
   \<and> length (alertFeed (run initial (frames (map sample_event [1..<52])))) = 20
   \<and> sample_event 1 \<notin> set (transactions (run initial (frames (map sample_event [1..<52]))))
   \<and> transactions (run initial (frames (map sample_event [1..<52]))) ! 0 = sample_event 51"
proof -
  let ?ds = "map sample_event [1..<52]"
  let ?tx = "transactions (run initial (frames ?ds))"
  let ?af = "alertFeed (run initial (frames ?ds))"
  have tr: "\<forall>d\<in>set ?ds. is_transaction d"
    by (simp add: sample_event_def is_transaction_def get_prop_def)
  have inj: "inj sample_event"
    by (rule injI) (simp add: sample_event_def)
  have "inj_on sample_event (set [1..<52])"
    by (rule inj_on_subset [OF inj]) (rule subset_UNIV)
  then have dist: "distinct ?ds"
    by (simp only: distinct_map distinct_upt simp_thms)
  have len: "length ?ds = 51" by simp
  have "filter is_alert ?ds = map sample_event (filter even [1..<52])"
    by (simp add: filter_map comp_def sample_event_def is_alert_def)
  moreover have "length (filter even [1..<52::nat]) = 25"
    by code_simp
  ultimately have al: "length (filter is_alert ?ds) = 25" by simp
  have e: "transactions initial = []" "alertFeed initial = []"
    by (simp_all add: initial_def)
  have hd: "hd ?ds = sample_event 1" by (simp add: upt_conv_Cons)
  have lst: "last ?ds = sample_event 51" by (simp add: last_map)
  note w = window_buffers_newest_first [OF tr e]
  from w have "length ?af = min (length (filter is_alert ?ds)) 20" by blast
  with al have 1: "length ?af = 20" by simp
  from w have "length ?ds = 51 \<and> distinct ?ds \<longrightarrow>
         length ?tx = 50 \<and> hd ?ds \<notin> set ?tx \<and> ?tx ! 0 = last ?ds" by blast
  with len dist have 2: "length ?tx = 50 \<and> hd ?ds \<notin> set ?tx \<and> ?tx ! 0 = last ?ds"
    by blast
  have 3: "list_all is_transaction ?ds" using tr by (simp only: list_all_iff)
  from 1 2 3 e dist show ?thesis unfolding hd lst by blast
qed

section \<open>The counters\<close>

lemma step_stats_cases:
  "stats (step s ev) = stats s \<or>
   (\<exists>d. ev = Message (Json d) \<and> is_transaction d \<and> stats (step s ev) = setStats d (stats s))"
proof (cases "\<exists>d. ev = Message (Json d) \<and> is_transaction d")
  case True
  then show ?thesis by (auto simp: step_transaction)
next
  case False
  then have "stats (step s ev) = stats s" by (intro step_other [THEN conjunct2, THEN conjunct2]) blast
  then show ?thesis ..
qed

lemma setStats_mono:
  "total st \<le> total (setStats d st) \<and> alerts st \<le> alerts (setStats d st)
   \<and> truePositives st \<le> truePositives (setStats d st)
   \<and> falsePositives st \<le> falsePositives (setStats d st)"
  by (simp add: setStats_def)

lemma step_stats_mono:
  "total (stats s) \<le> total (stats (step s ev)) \<and> alerts (stats s) \<le> alerts (stats (step s ev))
   \<and> truePositives (stats s) \<le> truePositives (stats (step s ev))
   \<and> falsePositives (stats s) \<le> falsePositives (stats (step s ev))"
  using step_stats_cases [of s ev] setStats_mono by auto

lemma setStats_bounds:
  assumes "0 \<le> truePositives st" "0 \<le> falsePositives st"
    "truePositives st + falsePositives st \<le> alerts st" "alerts st \<le> total st"
  shows "0 \<le> truePositives (setStats d st) \<and> 0 \<le> falsePositives (setStats d st)
    \<and> truePositives (setStats d st) + falsePositives (setStats d st) \<le> alerts (setStats d st)
    \<and> alerts (setStats d st) \<le> total (setStats d st)"
  using assms by (simp add: setStats_def)

lemma step_bounds:
  assumes "0 \<le> truePositives (stats s)" "0 \<le> falsePositives (stats s)"
    "truePositives (stats s) + falsePositives (stats s) \<le> alerts (stats s)"
    "alerts (stats s) \<le> total (stats s)"
  shows "0 \<le> truePositives (stats (step s ev)) \<and> 0 \<le> falsePositives (stats (step s ev))
    \<and> truePositives (stats (step s ev)) + falsePositives (stats (step s ev))
        \<le> alerts (stats (step s ev))
    \<and> alerts (stats (step s ev)) \<le> total (stats (step s ev))"
  using step_stats_cases [of s ev] setStats_bounds [OF assms] assms by auto

lemma run_bounds:
  assumes "0 \<le> truePositives (stats s)" "0 \<le> falsePositives (stats s)"
    "truePositives (stats s) + falsePositives (stats s) \<le> alerts (stats s)"
    "alerts (stats s) \<le> total (stats s)"
  shows "0 \<le> truePositives (stats (run s evs)) \<and> 0 \<le> falsePositives (stats (run s evs))
    \<and> truePositives (stats (run s evs)) + falsePositives (stats (run s evs))
        \<le> alerts (stats (run s evs))
    \<and> alerts (stats (run s evs)) \<le> total (stats (run s evs))"
  using assms
proof (induction evs arbitrary: s)
  case Nil
  then show ?case by simp
next
  case (Cons ev evs)
  from step_bounds [OF Cons.prems, of ev] show ?case
    by (simp only: run.simps) (intro Cons.IH, simp_all)
qed

lemma step_labelled:
  assumes "truePositives (stats s) + falsePositives (stats s) = alerts (stats s)"
    and "labelled ev"
  shows "truePositives (stats (step s ev)) + falsePositives (stats (step s ev))
    = alerts (stats (step s ev))"
  using step_stats_cases [of s ev] assms by (auto simp: setStats_def)

lemma run_labelled:
  assumes "truePositives (stats s) + falsePositives (stats s) = alerts (stats s)"
    and "\<forall>ev\<in>set evs. labelled ev"
  shows "truePositives (stats (run s evs)) + falsePositives (stats (run s evs))
    = alerts (stats (run s evs))"
  using assms
proof (induction evs arbitrary: s)
  case Nil
  then show ?case by simp
next
  case (Cons ev evs)
  then show ?case by (simp add: step_labelled)
qed

lemma reachable_run: "reachable s \<Longrightarrow> reachable (run s evs)"
  by (induction evs arbitrary: s) (simp_all add: reachable.after)

lemma reachable_bounds:
  assumes "reachable s"
  shows "0 \<le> truePositives (stats s) \<and> 0 \<le> falsePositives (stats s)
    \<and> truePositives (stats s) + falsePositives (stats s) \<le> alerts (stats s)
    \<and> alerts (stats s) \<le> total (stats s)"
  using assms
proof (induction rule: reachable.induct)
  case fresh
  show ?case by (simp add: initial_def)
next
  case (after s ev)
  then show ?case using step_bounds [of s ev] by blast
qed


lemma is_alert_bool: "property d ''is_alert'' = Some (JBool b) \<Longrightarrow> is_alert d = b"
  by (simp add: is_alert_def)

text \<open>
  Claim C2. Every processed \<open>transaction\<close> frame adds exactly 1 to \<open>total\<close>, whatever it
  carries; it adds 1 to \<open>alerts\<close> exactly when its \<open>is_alert\<close> holds (for a boolean
  \<open>is_alert\<close>: when it is \<open>true\<close>), 1 to \<open>truePositives\<close> exactly when \<open>is_alert\<close> holds and
  \<open>fraud_actual\<close> is 1, and 1 to \<open>falsePositives\<close> exactly when \<open>is_alert\<close> holds and
  \<open>fraud_actual\<close> is 0. After \<open>N\<close> transaction frames of a fresh session \<open>total\<close> is \<open>N\<close>,
  and no event of a session makes a counter smaller.
\<close>

theorem stats_count_each_transaction:
  assumes "is_transaction d"
  shows "total (stats (step s (Message (Json d)))) = total (stats s) + 1
    \<and> alerts (stats (step s (Message (Json d)))) =
        alerts (stats s) + (if is_alert d then 1 else 0)
    \<and> truePositives (stats (step s (Message (Json d)))) =
        truePositives (stats s) + (if is_alert d \<and> fraud_actual d = Some (JNum 1) then 1 else 0)
    \<and> falsePositives (stats (step s (Message (Json d)))) =
        falsePositives (stats s) + (if is_alert d \<and> fraud_actual d = Some (JNum 0) then 1 else 0)
    \<and> (\<forall>b. property d ''is_alert'' = Some (JBool b) \<longrightarrow> is_alert d = b)
    \<and> (\<forall>ds. (\<forall>x\<in>set ds. is_transaction x) \<longrightarrow>
          total (stats (run initial (frames ds))) = int (length ds))
    \<and> (\<forall>t ev. total (stats t) \<le> total (stats (step t ev))
          \<and> alerts (stats t) \<le> alerts (stats (step t ev))
          \<and> truePositives (stats t) \<le> truePositives (stats (step t ev))
          \<and> falsePositives (stats t) \<le> falsePositives (stats (step t ev)))"
proof -
  have one: "stats (step s (Message (Json d))) = setStats d (stats s)"
    using assms by (simp add: step_transaction)
  have many: "total (stats (run initial (frames ds))) = int (length ds)"
    if "\<forall>x\<in>set ds. is_transaction x" for ds
    using that by (simp add: run_frames_stats fold_setStats_total initial_def)
  show ?thesis
    unfolding one using many step_stats_mono is_alert_bool
    by (simp add: setStats_def)
qed

theorem stats_count_each_transaction_witness:
  "is_transaction (sample_event 2)
   \<and> stats (step initial (Message (Json (sample_event 2)))) =
       \<lparr>total = 1, alerts = 1, truePositives = 1, falsePositives = 0\<rparr>
   \<and> total (stats (run initial (frames [sample_event 1, sample_event 2, sample_event 3]))) = 3"
proof -
  have tr: "is_transaction (sample_event i)" for i
    by (simp add: sample_event_def is_transaction_def get_prop_def)
  have al: "is_alert (sample_event 2)" "fraud_actual (sample_event 2) = Some (JNum 1)"
    by (simp_all add: sample_event_def is_alert_def fraud_actual_def)
  note w = stats_count_each_transaction [where d = "sample_event 2" and s = initial, OF tr]
  from w have "total (stats (run initial (frames [sample_event 1, sample_event 2, sample_event 3])))
      = int (length [sample_event 1, sample_event 2, sample_event 3])"
    using tr by simp
  moreover from w al have "stats (step initial (Message (Json (sample_event 2)))) =
       \<lparr>total = 1, alerts = 1, truePositives = 1, falsePositives = 0\<rparr>"
    by (intro stats.equality) (simp_all add: initial_def)
  ultimately show ?thesis using tr by simp
qed

text \<open>
  Claim C3. In every state that a fresh session reaches by any sequence of events, the four
  counters are non-negative, \<open>alerts \<le> total\<close> and \<open>truePositives + falsePositives \<le> alerts\<close>,
  with equality when every alerted transaction frame processed so far carried a
  \<open>fraud_actual\<close> of 0 or 1; and the next event, whatever it is, makes no counter smaller.
\<close>

theorem counters_invariant:
  "0 \<le> total (stats (run initial evs)) \<and> 0 \<le> alerts (stats (run initial evs))
   \<and> 0 \<le> truePositives (stats (run initial evs))
   \<and> 0 \<le> falsePositives (stats (run initial evs))
   \<and> alerts (stats (run initial evs)) \<le> total (stats (run initial evs))
   \<and> truePositives (stats (run initial evs)) + falsePositives (stats (run initial evs))
       \<le> alerts (stats (run initial evs))
   \<and> ((\<forall>ev\<in>set evs. labelled ev) \<longrightarrow>
        truePositives (stats (run initial evs)) + falsePositives (stats (run initial evs))
          = alerts (stats (run initial evs)))
   \<and> (\<forall>ev. total (stats (run initial evs)) \<le> total (stats (step (run initial evs) ev))
        \<and> alerts (stats (run initial evs)) \<le> alerts (stats (step (run initial evs) ev))
        \<and> truePositives (stats (run initial evs))
            \<le> truePositives (stats (step (run initial evs) ev))
        \<and> falsePositives (stats (run initial evs))
            \<le> falsePositives (stats (step (run initial evs) ev)))"
proof -
  have b: "0 \<le> truePositives (stats (run initial evs))
      \<and> 0 \<le> falsePositives (stats (run initial evs))
      \<and> truePositives (stats (run initial evs)) + falsePositives (stats (run initial evs))
          \<le> alerts (stats (run initial evs))
      \<and> alerts (stats (run initial evs)) \<le> total (stats (run initial evs))"
    by (rule run_bounds) (simp_all add: initial_def)
  have l: "truePositives (stats (run initial evs)) + falsePositives (stats (run initial evs))
      = alerts (stats (run initial evs))" if "\<forall>ev\<in>set evs. labelled ev"
    using that by (intro run_labelled) (simp_all add: initial_def)
  from b have "0 \<le> alerts (stats (run initial evs))" "0 \<le> total (stats (run initial evs))"
    by linarith+
  with b l step_stats_mono [of "run initial evs"] show ?thesis by blast
qed

theorem counters_invariant_witness:
  "list_all labelled [Open, Message (Json (sample_event 2)), Message Malformed,
       Message (Json (sample_event 3)), Close]
   \<and> stats (run initial [Open, Message (Json (sample_event 2)), Message Malformed,
       Message (Json (sample_event 3)), Close]) =
       \<lparr>total = 2, alerts = 1, truePositives = 1, falsePositives = 0\<rparr>
   \<and> truePositives (stats (run initial [Open, Message (Json (sample_event 2)),
         Message Malformed, Message (Json (sample_event 3)), Close]))
       + falsePositives (stats (run initial [Open, Message (Json (sample_event 2)),
         Message Malformed, Message (Json (sample_event 3)), Close]))
       = alerts (stats (run initial [Open, Message (Json (sample_event 2)),
         Message Malformed, Message (Json (sample_event 3)), Close]))"
proof -
  let ?evs = "[Open, Message (Json (sample_event 2)), Message Malformed,
       Message (Json (sample_event 3)), Close]"
  have tr: "is_transaction (sample_event i)" for i
    by (simp add: sample_event_def is_transaction_def get_prop_def)
  have fa: "fraud_actual (sample_event i) = Some (JNum 1)" for i
    by (simp add: sample_event_def fraud_actual_def)
  have al: "is_alert (sample_event 2)" "\<not> is_alert (sample_event 3)"
    by (simp_all add: sample_event_def is_alert_def)
  have lab: "\<forall>ev\<in>set ?evs. labelled ev"
    by (simp add: fa)
  have "run initial ?evs = step (step (step (step (step initial Open)
      (Message (Json (sample_event 2)))) (Message Malformed))
      (Message (Json (sample_event 3)))) Close"
    by simp
  then have st: "stats (run initial ?evs) =
      \<lparr>total = 2, alerts = 1, truePositives = 1, falsePositives = 0\<rparr>"
    by (simp add: step_transaction tr al fa setStats_def)
      (simp add: step_def onopen_def onclose_def onmessage_def initial_def)
  from counters_invariant [of ?evs] lab
  have "truePositives (stats (run initial ?evs)) + falsePositives (stats (run initial ?evs))
      = alerts (stats (run initial ?evs))" by blast
  with st lab show ?thesis by (simp only: list_all_iff simp_thms)
qed

section \<open>The alert feed\<close>

lemma set_take_subset_Cons: "set (take n (x # xs)) \<subseteq> insert x (set xs)"
  using set_take_subset [of n "x # xs"] by simp

text \<open>
  Claim C4. In every reachable state every frame held in the alert feed has \<open>is_alert\<close>,
  the alert feed holds at most 20 frames and the transaction stream at most 50; and
  processing a transaction frame without \<open>is_alert\<close> leaves the alert feed as it was.
\<close>

theorem alert_feed_holds_alerts_only:
  assumes "reachable s"
  shows "(\<forall>d\<in>set (alertFeed s). is_alert d)
    \<and> length (alertFeed s) \<le> 20 \<and> length (transactions s) \<le> 50
    \<and> (\<forall>d. is_transaction d \<and> \<not> is_alert d \<longrightarrow>
          alertFeed (step s (Message (Json d))) = alertFeed s)"
  using assms
proof (induction rule: reachable.induct)
  case fresh
  show ?case by (simp add: initial_def step_transaction)
next
  case (after s ev)
  have keep: "alertFeed (step t (Message (Json d))) = alertFeed t"
    if "is_transaction d" "\<not> is_alert d" for t d
    using that by (simp add: step_transaction)
  show ?case
  proof (cases "\<exists>d. ev = Message (Json d) \<and> is_transaction d")
    case True
    then obtain d where ev: "ev = Message (Json d)" and tr: "is_transaction d" by blast
    have feed: "alertFeed (step s ev) =
        (if is_alert d then take 20 (d # alertFeed s) else alertFeed s)"
      and tx: "transactions (step s ev) = take 50 (d # transactions s)"
      using tr by (simp_all add: ev step_transaction del: take_Cons_numeral)
    have "\<forall>x\<in>set (alertFeed (step s ev)). is_alert x"
      using after.IH set_take_subset_Cons [of 20 d "alertFeed s"]
      by (auto simp: feed simp del: take_Cons_numeral)
    moreover have "length (alertFeed (step s ev)) \<le> 20"
      using after.IH by (simp add: feed del: take_Cons_numeral)
    moreover have "length (transactions (step s ev)) \<le> 50"
      by (simp add: tx del: take_Cons_numeral)
    ultimately show ?thesis using keep by blast
  next
    case False
    then have "transactions (step s ev) = transactions s \<and> alertFeed (step s ev) = alertFeed s"
      using step_other [of ev s] by blast
    with after.IH keep show ?thesis by simp
  qed
qed

theorem alert_feed_holds_alerts_only_witness:
  "reachable (run initial (frames [sample_event 1, sample_event 2]))
   \<and> list_all is_alert (alertFeed (run initial (frames [sample_event 1, sample_event 2])))
   \<and> alertFeed (run initial (frames [sample_event 1, sample_event 2])) = [sample_event 2]
   \<and> is_transaction (sample_event 3) \<and> \<not> is_alert (sample_event 3)
   \<and> alertFeed (step (run initial (frames [sample_event 1, sample_event 2]))
        (Message (Json (sample_event 3)))) = [sample_event 2]"
proof -
  let ?s = "run initial (frames [sample_event 1, sample_event 2])"
  have tr: "is_transaction (sample_event i)" for i
    by (simp add: sample_event_def is_transaction_def get_prop_def)
  have al: "\<not> is_alert (sample_event 1)" "is_alert (sample_event 2)" "\<not> is_alert (sample_event 3)"
    by (simp_all add: sample_event_def is_alert_def)
  have r: "reachable ?s" by (rule reachable_run) (rule reachable.fresh)
  have ev: "is_alert (sample_event i) = even i" for i
    by (simp add: sample_event_def is_alert_def)
  have feed: "alertFeed ?s = [sample_event 2]"
    by (simp add: frames_def step_transaction tr ev initial_def)
  note w = alert_feed_holds_alerts_only [OF r]
  from w have 1: "\<forall>d\<in>set (alertFeed ?s). is_alert d" by blast
  from w tr [of 3] al(3)
  have 2: "alertFeed (step ?s (Message (Json (sample_event 3)))) = alertFeed ?s" by blast
  from 1 have 3: "list_all is_alert (alertFeed ?s)" by (simp only: list_all_iff)
  from r 2 3 feed tr [of 3] al(3) show ?thesis by simp
qed

section \<open>Frames that are not transactions\<close>




text \<open>
  Claim C7, as the code has it. For a frame that \<open>JSON.parse\<close> rejects, the handler does not
  return: the \<open>SyntaxError\<close> leaves \<open>onmessage\<close> uncaught, before any state setter has run and
  with nothing logged or shown by the handler. Buffers, counters and the connectivity
  indicator are unchanged. The second theorem refutes the claim as written (the handler
  completing with the frame dropped) on a connected session.
\<close>

theorem malformed_frame_throws:
  "onmessage s Malformed = (Throw SyntaxError, [], s) \<and> step s (Message Malformed) = s"
  by (simp add: onmessage_def step_def)

theorem malformed_frame_not_handled:
  "\<not> (fst (onmessage (step initial Open) Malformed) = Normal
      \<and> snd (snd (onmessage (step initial Open) Malformed)) = step initial Open)"
  by (simp add: onmessage_def)

text \<open>
  Claim C8, as the code has it. A frame that parses and whose \<open>type\<close> is neither
  \<open>"transaction"\<close> nor \<open>"error"\<close> (another string, a value of another kind, or no \<open>type\<close> at
  all) leaves the state as it was, with no effect. The handler returns, except on the frame
  \<open>null\<close>: it has no property to read, and the \<open>TypeError\<close> of \<open>data.type\<close> leaves the
  handler. The second theorem refutes the claim as written at \<open>null\<close>.
\<close>

theorem unknown_type_ignored:
  assumes "get_prop d ''type'' \<noteq> Inr (Some (JStr ''transaction''))"
    and "get_prop d ''type'' \<noteq> Inr (Some (JStr ''error''))"
  shows "onmessage s (Json d) = ((if d = JNull then Throw TypeError else Normal), [], s)
    \<and> step s (Message (Json d)) = s"
  using assms by (cases "d = JNull") (simp_all add: onmessage_def step_def get_prop_def)

theorem unknown_type_ignored_witness:
  "get_prop (JObj [(''type'', JStr ''heartbeat'')]) ''type'' = Inr (Some (JStr ''heartbeat''))
   \<and> onmessage (step initial Open) (Json (JObj [(''type'', JStr ''heartbeat'')]))
       = (Normal, [], step initial Open)
   \<and> get_prop (JArr []) ''type'' = Inr None
   \<and> onmessage initial (Json (JArr [])) = (Normal, [], initial)
   \<and> get_prop JNull ''type'' = Inl TypeError
   \<and> onmessage initial (Json JNull) = (Throw TypeError, [], initial)"
proof -
  have 1: "get_prop (JObj [(''type'', JStr ''heartbeat'')]) ''type'' = Inr (Some (JStr ''heartbeat''))"
    and 2: "get_prop (JArr []) ''type'' = Inr None"
    and 3: "get_prop JNull ''type'' = Inl TypeError"
    by (simp_all add: get_prop_def)
  from unknown_type_ignored [of "JObj [(''type'', JStr ''heartbeat'')]" "step initial Open"]
    unknown_type_ignored [of "JArr []" initial] unknown_type_ignored [of JNull initial] 1 2 3
  show ?thesis by simp
qed

theorem null_frame_not_ignored:
  "get_prop JNull ''type'' \<noteq> Inr (Some (JStr ''transaction''))
   \<and> get_prop JNull ''type'' \<noteq> Inr (Some (JStr ''error''))
   \<and> fst (onmessage (step initial Open) (Json JNull)) = Throw TypeError"
  by (simp add: onmessage_def get_prop_def)

section \<open>Closing\<close>







section \<open>Replayed and unlabelled transactions\<close>

text \<open>
  Claim C9. Processing the same transaction frame twice counts it twice and stores it twice:
  \<open>total\<close> grows by 2, each of the other counters by 2 when its condition holds for the frame,
  and the frame is at the two front positions of the transaction stream (and of the alert
  feed when it has \<open>is_alert\<close>). Nothing compares ids or contents.
\<close>

theorem replay_counts_twice:
  assumes "is_transaction d"
  shows "total (stats (run s [Message (Json d), Message (Json d)])) = total (stats s) + 2
    \<and> alerts (stats (run s [Message (Json d), Message (Json d)])) =
        alerts (stats s) + (if is_alert d then 2 else 0)
    \<and> truePositives (stats (run s [Message (Json d), Message (Json d)])) =
        truePositives (stats s) + (if is_alert d \<and> fraud_actual d = Some (JNum 1) then 2 else 0)
    \<and> falsePositives (stats (run s [Message (Json d), Message (Json d)])) =
        falsePositives (stats s) + (if is_alert d \<and> fraud_actual d = Some (JNum 0) then 2 else 0)
    \<and> transactions (run s [Message (Json d), Message (Json d)]) =
        d # d # take 48 (transactions s)
    \<and> alertFeed (run s [Message (Json d), Message (Json d)]) =
        (if is_alert d then d # d # take 18 (alertFeed s) else alertFeed s)"
  using assms by (simp add: step_transaction setStats_def)

theorem replay_counts_twice_witness:
  "is_transaction (sample_event 2)
   \<and> stats (run initial [Message (Json (sample_event 2)), Message (Json (sample_event 2))]) =
       \<lparr>total = 2, alerts = 2, truePositives = 2, falsePositives = 0\<rparr>
   \<and> transactions (run initial [Message (Json (sample_event 2)), Message (Json (sample_event 2))])
       = [sample_event 2, sample_event 2]
   \<and> alertFeed (run initial [Message (Json (sample_event 2)), Message (Json (sample_event 2))])
       = [sample_event 2, sample_event 2]"
proof -
  let ?r = "run initial [Message (Json (sample_event 2)), Message (Json (sample_event 2))]"
  have tr: "is_transaction (sample_event 2)"
    by (simp add: sample_event_def is_transaction_def get_prop_def)
  have al: "is_alert (sample_event 2)" "fraud_actual (sample_event 2) = Some (JNum 1)"
    by (simp_all add: sample_event_def is_alert_def fraud_actual_def)
  note w = replay_counts_twice [OF tr, of initial]
  from w al have "stats ?r = \<lparr>total = 2, alerts = 2, truePositives = 2, falsePositives = 0\<rparr>"
    by (intro stats.equality) (simp_all add: initial_def)
  moreover from w al have "transactions ?r = [sample_event 2, sample_event 2]"
    "alertFeed ?r = [sample_event 2, sample_event 2]"
    by (simp_all add: initial_def)
  ultimately show ?thesis using tr by simp
qed

text \<open>
  Claim C10. An alerted transaction frame whose \<open>fraud_actual\<close> is neither the number 0 nor
  the number 1 (absent, 2, ...) is processed, not rejected: \<open>total\<close> and \<open>alerts\<close> grow by 1,
  \<open>truePositives\<close> and \<open>falsePositives\<close> stay, so that in a reachable state
  \<open>truePositives + falsePositives < alerts\<close> afterwards.
\<close>

theorem unlabelled_alert_counted:
  assumes "is_transaction d" and "is_alert d"
    and "fraud_actual d \<noteq> Some (JNum 0)" and "fraud_actual d \<noteq> Some (JNum 1)"
  shows "fst (onmessage s (Json d)) = Normal
    \<and> total (stats (step s (Message (Json d)))) = total (stats s) + 1
    \<and> alerts (stats (step s (Message (Json d)))) = alerts (stats s) + 1
    \<and> truePositives (stats (step s (Message (Json d)))) = truePositives (stats s)
    \<and> falsePositives (stats (step s (Message (Json d)))) = falsePositives (stats s)
    \<and> (reachable s \<longrightarrow>
         truePositives (stats (step s (Message (Json d))))
           + falsePositives (stats (step s (Message (Json d))))
         < alerts (stats (step s (Message (Json d)))))"
proof -
  have c: "fst (onmessage s (Json d)) = Normal"
    using assms by (simp add: onmessage_transaction on_transaction_def Let_def)
  have st: "stats (step s (Message (Json d))) = setStats d (stats s)"
    using assms by (simp add: step_transaction)
  show ?thesis
    using assms c reachable_bounds [of s] by (auto simp: st setStats_def)
qed

theorem unlabelled_alert_counted_witness:
  "is_transaction (JObj [(''type'', JStr ''transaction''), (''is_alert'', JBool True),
       (''fraud_actual'', JNum 2)])
   \<and> is_alert (JObj [(''type'', JStr ''transaction''), (''is_alert'', JBool True),
       (''fraud_actual'', JNum 2)])
   \<and> fraud_actual (JObj [(''type'', JStr ''transaction''), (''is_alert'', JBool True),
       (''fraud_actual'', JNum 2)]) = Some (JNum 2)
   \<and> stats (step initial (Message (Json (JObj [(''type'', JStr ''transaction''),
       (''is_alert'', JBool True), (''fraud_actual'', JNum 2)])))) =
       \<lparr>total = 1, alerts = 1, truePositives = 0, falsePositives = 0\<rparr>
   \<and> fraud_actual (JObj [(''type'', JStr ''transaction''), (''is_alert'', JBool True)]) = None
   \<and> stats (step initial (Message (Json (JObj [(''type'', JStr ''transaction''),
       (''is_alert'', JBool True)])))) =
       \<lparr>total = 1, alerts = 1, truePositives = 0, falsePositives = 0\<rparr>"
proof -
  let ?d = "JObj [(''type'', JStr ''transaction''), (''is_alert'', JBool True),
       (''fraud_actual'', JNum 2)]"
  let ?m = "JObj [(''type'', JStr ''transaction''), (''is_alert'', JBool True)]"
  have d: "is_transaction ?d" "is_alert ?d" "fraud_actual ?d = Some (JNum 2)"
    and m: "is_transaction ?m" "is_alert ?m" "fraud_actual ?m = None"
    by (simp_all add: is_transaction_def get_prop_def is_alert_def fraud_actual_def)
  have "stats (step initial (Message (Json ?d))) =
       \<lparr>total = 1, alerts = 1, truePositives = 0, falsePositives = 0\<rparr>"
    using unlabelled_alert_counted [of ?d initial] d
    by (intro stats.equality) (simp_all add: initial_def)
  moreover have "stats (step initial (Message (Json ?m))) =
       \<lparr>total = 1, alerts = 1, truePositives = 0, falsePositives = 0\<rparr>"
    using unlabelled_alert_counted [of ?m initial] m
    by (intro stats.equality) (simp_all add: initial_def)
  ultimately show ?thesis using d m by simp
qed

end
